theory Spec2Isabelle
  imports Complex_Main "HOL-Library.Word"
begin

section \<open>Python strings\<close>

text \<open>
  A Python \<open>str\<close> is a sequence of Unicode code points, and \<open>len\<close>, \<open>split\<close>,
  \<open>strip\<close>, \<open>lower\<close> and the \<open>re\<close> module work on code points. The model covers the
  code points 0..255 (\<open>Latin c\<close>, the code point of the character \<open>c\<close>) and three more
  that the program can meet: U+0130 (capital I with dot above), the one code point whose
  lowercase form is two code points, U+0307 (combining dot above), the second of these
  two, and U+23F0 (the alarm clock of the timeout notification's title).
\<close>

datatype pychar = Latin char | CapIDot | CombDot | AlarmClock

type_synonym pystr = "pychar list"

definition u :: "string \<Rightarrow> pystr" where
  "u s = map Latin s"

text \<open>
  \<open>str.isspace\<close>, which is also the whitespace of \<open>str.split()\<close>, of \<open>str.strip()\<close> and
  of \<open>\s\<close> in a \<open>str\<close> pattern: below 256 these are the code points 9..13, 28..32, 133
  and 160.
\<close>

definition latin_space :: "char list" where
  "latin_space = [CHR 0x09, CHR 0x0A, CHR 0x0B, CHR 0x0C, CHR 0x0D,
                  CHR 0x1C, CHR 0x1D, CHR 0x1E, CHR 0x1F, CHR 0x20, CHR 0x85, CHR 0xA0]"

fun is_space :: "pychar \<Rightarrow> bool" where
  "is_space (Latin c) = (c \<in> set latin_space)"
| "is_space _ = False"

text \<open>\<open>\d\<close> in a \<open>str\<close> pattern is a decimal digit: below 256 only \<open>0\<close>..\<open>9\<close>.\<close>

fun is_digit :: "pychar \<Rightarrow> bool" where
  "is_digit (Latin c) = (c \<in> set ''0123456789'')"
| "is_digit _ = False"

text \<open>
  \<open>str.lower\<close>: below 256 the capital letters are \<open>A\<close>..\<open>Z\<close> and the code points
  192..222 without 215 (the multiplication sign); each is mapped 32 code points up.
  U+0130 becomes \<open>i\<close> followed by U+0307.
\<close>

definition latin_upper :: "char list" where
  "latin_upper = ''ABCDEFGHIJKLMNOPQRSTUVWXYZ'' @
     [CHR 0xC0, CHR 0xC1, CHR 0xC2, CHR 0xC3, CHR 0xC4, CHR 0xC5, CHR 0xC6, CHR 0xC7,
      CHR 0xC8, CHR 0xC9, CHR 0xCA, CHR 0xCB, CHR 0xCC, CHR 0xCD, CHR 0xCE, CHR 0xCF,
      CHR 0xD0, CHR 0xD1, CHR 0xD2, CHR 0xD3, CHR 0xD4, CHR 0xD5, CHR 0xD6,
      CHR 0xD8, CHR 0xD9, CHR 0xDA, CHR 0xDB, CHR 0xDC, CHR 0xDD, CHR 0xDE]"

definition latin_lower :: "char list" where
  "latin_lower = ''abcdefghijklmnopqrstuvwxyz'' @
     [CHR 0xE0, CHR 0xE1, CHR 0xE2, CHR 0xE3, CHR 0xE4, CHR 0xE5, CHR 0xE6, CHR 0xE7,
      CHR 0xE8, CHR 0xE9, CHR 0xEA, CHR 0xEB, CHR 0xEC, CHR 0xED, CHR 0xEE, CHR 0xEF,
      CHR 0xF0, CHR 0xF1, CHR 0xF2, CHR 0xF3, CHR 0xF4, CHR 0xF5, CHR 0xF6,
      CHR 0xF8, CHR 0xF9, CHR 0xFA, CHR 0xFB, CHR 0xFC, CHR 0xFD, CHR 0xFE]"

definition lower_latin :: "char \<Rightarrow> char" where
  "lower_latin c = (case map_of (zip latin_upper latin_lower) c of Some l \<Rightarrow> l | None \<Rightarrow> c)"

fun lower_char :: "pychar \<Rightarrow> pystr" where
  "lower_char (Latin c) = [Latin (lower_latin c)]"
| "lower_char CapIDot = [Latin CHR ''i'', CombDot]"
| "lower_char c = [c]"

definition py_lower :: "pystr \<Rightarrow> pystr" where
  "py_lower s = concat (map lower_char s)"

text \<open>\<open>s.split()\<close>: the maximal runs of characters that are not whitespace.\<close>

function py_split :: "pystr \<Rightarrow> pystr list" where
  "py_split [] = []"
| "py_split (c # cs) =
     (if is_space c then py_split cs
      else takeWhile (\<lambda>x. \<not> is_space x) (c # cs) # py_split (dropWhile (\<lambda>x. \<not> is_space x) cs))"
  by pat_completeness auto
termination
  by (relation "measure length") (auto simp: le_imp_less_Suc length_dropWhile_le)

text \<open>\<open>sep.join(xs)\<close>.\<close>

fun py_join :: "pystr \<Rightarrow> pystr list \<Rightarrow> pystr" where
  "py_join sep [] = []"
| "py_join sep [x] = x"
| "py_join sep (x # y # ys) = x @ sep @ py_join sep (y # ys)"

text \<open>\<open>s.strip(chars)\<close> removes, from both ends, the characters that occur in \<open>chars\<close>;
  \<open>s.strip()\<close> removes whitespace.\<close>

definition strip_where :: "(pychar \<Rightarrow> bool) \<Rightarrow> pystr \<Rightarrow> pystr" where
  "strip_where P s = rev (dropWhile P (rev (dropWhile P s)))"

definition py_strip_chars :: "pystr \<Rightarrow> pystr \<Rightarrow> pystr" where
  "py_strip_chars chars s = strip_where (\<lambda>c. c \<in> set chars) s"

definition py_strip :: "pystr \<Rightarrow> pystr" where
  "py_strip s = strip_where is_space s"

section \<open>The regular expressions of the filter\<close>

text \<open>
  The three timestamp patterns are sequences of literal characters, \<open>\d\<close> and \<open>\s*\<close>.
  \<open>re_match p s\<close> matches \<open>p\<close> at the start of \<open>s\<close> and returns what follows the match.
  \<open>\s*\<close> is greedy and gives whitespace back when the rest of the pattern fails, as the
  backtracking matcher of \<open>re\<close> does.
\<close>

datatype atom = Lit pychar | Digit | Spaces

fun re_match :: "atom list \<Rightarrow> pystr \<Rightarrow> pystr option" where
  "re_match [] s = Some s"
| "re_match (Lit c # p) [] = None"
| "re_match (Lit c # p) (x # xs) = (if x = c then re_match p xs else None)"
| "re_match (Digit # p) [] = None"
| "re_match (Digit # p) (x # xs) = (if is_digit x then re_match p xs else None)"
| "re_match (Spaces # p) [] = re_match p []"
| "re_match (Spaces # p) (x # xs) =
     (if is_space x
      then (case re_match (Spaces # p) xs of Some r \<Rightarrow> Some r | None \<Rightarrow> re_match p (x # xs))
      else re_match p (x # xs))"

text \<open>\<open>\d{2}:\d{2}:\d{2}\<close>\<close>

definition re_hms :: "atom list" where
  "re_hms = [Digit, Digit, Lit (Latin CHR '':''), Digit, Digit, Lit (Latin CHR '':''), Digit, Digit]"

text \<open>\<open>\d{2}:\d{2}:\d{2}\.\d{3}\<close>\<close>

definition re_hms_ms :: "atom list" where
  "re_hms_ms = re_hms @ [Lit (Latin CHR ''.''), Digit, Digit, Digit]"

text \<open>\<open>\[\d{2}:\d{2}:\d{2}\.\d{3}\s*-->\s*\d{2}:\d{2}:\d{2}\.\d{3}\]\<close>\<close>

definition re_srt :: "atom list" where
  "re_srt = [Lit (Latin CHR ''['')] @ re_hms_ms @ [Spaces] @ map Lit (u ''-->'') @ [Spaces]
            @ re_hms_ms @ [Lit (Latin CHR '']'')]"

text \<open>
  \<open>re.sub(p, '', s)\<close>: scanning from the left, every match of \<open>p\<close> is deleted and the
  scan goes on behind it; where \<open>p\<close> does not match (or matches the empty string) the
  character is kept. The result is not scanned again.
\<close>

function re_sub :: "atom list \<Rightarrow> pystr \<Rightarrow> pystr" where
  "re_sub p [] = []"
| "re_sub p (c # cs) =
     (case re_match p (c # cs) of
        Some rest \<Rightarrow> if length rest < length (c # cs) then re_sub p rest else c # re_sub p cs
      | None \<Rightarrow> c # re_sub p cs)"
  by pat_completeness auto
termination
  by (relation "measure (\<lambda>(p, s). length s)") auto

text \<open>\<open>re.search(p, s) is not None\<close>: the pattern occurs somewhere in \<open>s\<close>.\<close>

fun re_search :: "atom list \<Rightarrow> pystr \<Rightarrow> bool" where
  "re_search p [] = (re_match p [] \<noteq> None)"
| "re_search p (c # cs) = (re_match p (c # cs) \<noteq> None \<or> re_search p cs)"

text \<open>
  \<open>re.match(r'^[\d\s\.,!?;:]*$', text)\<close>. \<open>$\<close> also matches before a final newline, but
  a newline is in the class, so the pattern matches exactly the strings made of
  characters of the class.
\<close>

definition digits_punct_only :: "pystr \<Rightarrow> bool" where
  "digits_punct_only text =
     list_all (\<lambda>c. is_digit c \<or> is_space c \<or> c \<in> set (u ''.,!?;:'')) text"

section \<open>The transcript filter\<close>

definition false_positives :: "pystr list" where
  "false_positives = [u ''um'', u ''uh'', u ''ah'', u ''eh'', u ''er'',
                      u '''', u '' '', u ''  '', u ''...'', u ''...'']"

definition meaningful_single_words :: "pystr list" where
  "meaningful_single_words = [u ''you'', u ''hello'', u ''yes'', u ''no'', u ''okay'', u ''ok'',
                              u ''stop'', u ''go'', u ''up'', u ''down'', u ''left'', u ''right'']"

text \<open>Lines 374 to 382 of \<open>_clean_transcription\<close>: the text after the three
  substitutions, the whitespace clean-up and the trimming.\<close>

definition cleaned_text :: "pystr \<Rightarrow> pystr" where
  "cleaned_text text =
     py_strip_chars (u '' .,!?;-'')
       (py_join (u '' '') (py_split (re_sub re_hms (re_sub re_hms_ms (re_sub re_srt text)))))"

text \<open>\<open>_clean_transcription\<close>: \<open>None\<close> is Python's \<open>None\<close> (no transcript).\<close>

definition clean_transcription :: "pystr \<Rightarrow> pystr option" where
  "clean_transcription text0 =
     (if text0 = [] then None
      else let text = cleaned_text text0 in
        if text = [] then None
        else let text_lower = py_strip (py_lower text) in
          if length text_lower < 2 then None
          else if text_lower \<in> set false_positives then None
          else let words = py_split text_lower in
            if length words = 1 \<and> hd words \<in> set false_positives then None
            else if length words = 1 \<and> hd words \<in> set meaningful_single_words then Some text
            else if digits_punct_only text then None
            else Some text)"

section \<open>The recorder and its environment\<close>

text \<open>
  The fields of \<open>PushToTalk\<close> that the recording cycle reads or writes. The audio
  settings are fixed in \<open>__init__\<close>: chunks of 1024 samples, one channel, 16000 samples
  per second, samples of two bytes (\<open>paInt16\<close>).
\<close>

type_synonym bytes = "8 word list"

datatype key = AltL | OtherKey nat

record ptt =
  whisper_path :: pystr
  model_path :: "pystr option"
  audio_device :: "int option"
  is_recording :: bool
  audio_frames :: "bytes list"
  push_to_talk_key :: key

definition CHUNK :: nat where "CHUNK = 1024"
definition CHANNELS :: nat where "CHANNELS = 1"
definition RATE :: nat where "RATE = 16000"
definition SAMPLE_SIZE :: nat where "SAMPLE_SIZE = 2"

text \<open>
  What the program asks of the world outside is recorded as a trace of events, in the
  order of the calls. Diagnostic \<open>print\<close>s are left out; the \<open>print\<close> that replaces a
  notification when no transport is there is \<open>ConsoleNotify\<close>.
\<close>

datatype event =
    NotifySend pystr pystr int "pystr option"
  | PlyerNotify pystr pystr int "pystr option"
  | ConsoleNotify pystr pystr
  | StreamOpen
  | StreamClose
  | TempFile pystr
  | WaveWrite pystr nat nat nat bytes
  | Whisper "pystr list"
  | ClipboardCopy pystr
  | SaveTranscription pystr rat "int option" "pystr option"
  | Unlink pystr

text \<open>
  The outcomes of the calls into the world during one cycle: which notification
  transports exist and whether a call to one raises (by the title sent), the name of the
  file that \<open>NamedTemporaryFile\<close> creates (\<open>None\<close> when it raises), whether writing the
  WAV file raises, whether the model file exists, how the engine's subprocess ends,
  whether the clipboard or the saving of the record raises, whether opening the capture
  stream raises, and what the reads of the stream give until the key is released.
\<close>

datatype engine_result = Exited int pystr pystr | TimeoutExpired | OtherError

datatype read_result = Data bytes | ReadError

record env =
  notify_send_available :: bool
  plyer_available :: bool
  notify_send_raises :: "pystr \<Rightarrow> bool"
  temp_path :: "pystr option"
  wave_raises :: bool
  model_exists :: bool
  engine :: engine_result
  clipboard_raises :: bool
  save_raises :: bool
  stream_open_raises :: bool
  reads :: "read_result list"

datatype outcome = Returned | Raised

subsection \<open>Notifications\<close>

text \<open>
  \<open>_send_notification\<close>. \<open>notify-send\<close> is tried first; when it is not there, or the
  call raises, \<open>plyer\<close> is used, and the console when \<open>plyer\<close> is not there either. An
  exception of \<open>plyer\<close> is printed and dropped.
\<close>

definition fallback_notification :: "env \<Rightarrow> pystr \<Rightarrow> pystr \<Rightarrow> int \<Rightarrow> pystr option \<Rightarrow> event list" where
  "fallback_notification e title message timeout icon =
     (if plyer_available e then [PlyerNotify title message timeout icon]
      else [ConsoleNotify title message])"

definition send_notification :: "env \<Rightarrow> pystr \<Rightarrow> pystr \<Rightarrow> int \<Rightarrow> pystr option \<Rightarrow> event list" where
  "send_notification e title message timeout icon =
     (if py_strip title = [] \<or> py_strip message = [] then []
      else if notify_send_available e
        then NotifySend title message (timeout * 1000) (if icon = Some [] then None else icon)
             # (if notify_send_raises e title
                then fallback_notification e title message timeout icon else [])
        else fallback_notification e title message timeout icon)"

subsection \<open>Recording\<close>

text \<open>
  The loop of \<open>start_recording\<close> reads chunks while \<open>is_recording\<close> is set; the flag is
  cleared by the task that the key's release starts. \<open>reads e\<close> are the reads that
  happen before the loop sees the flag cleared, so \<open>capture\<close> leaves the flag as it is,
  except when a read raises.
\<close>

fun capture :: "read_result list \<Rightarrow> ptt \<Rightarrow> ptt \<times> event list" where
  "capture [] s = (s, [StreamClose])"
| "capture (Data d # rs) s = capture rs (s\<lparr>audio_frames := audio_frames s @ [d]\<rparr>)"
| "capture (ReadError # rs) s = (s\<lparr>is_recording := False\<rparr>, [])"

definition start_recording :: "env \<Rightarrow> ptt \<Rightarrow> ptt \<times> event list" where
  "start_recording e s =
     (if is_recording s then (s, [])
      else let s1 = s\<lparr>is_recording := True, audio_frames := []\<rparr>;
               started = send_notification e (u ''Start'') (u ''Recording...'') 1 None
           in if stream_open_raises e then (s1\<lparr>is_recording := False\<rparr>, started)
              else let (s2, evs) = capture (reads e) s1 in (s2, started @ [StreamOpen] @ evs))"

subsection \<open>Transcribing\<close>

definition whisper_cmd :: "ptt \<Rightarrow> pystr \<Rightarrow> pystr \<Rightarrow> pystr list" where
  "whisper_cmd s model audio_path =
     [whisper_path s, u ''-m'', model, u ''-f'', audio_path, u ''-t'', u ''6'',
      u ''--split-on-word'', u ''-np'', u ''-nt'', u ''-wt'', u ''0.01'',
      u ''-nth'', u ''0.60'', u ''-bo'', u ''3'', u ''-bs'', u ''3'']"

definition timeout_title :: pystr where
  "timeout_title = AlarmClock # u '' Transcription Timeout''"

text \<open>\<open>_transcribe_audio\<close>: the transcript, or \<open>None\<close>, and the events.\<close>

definition transcribe_audio :: "env \<Rightarrow> ptt \<Rightarrow> pystr \<Rightarrow> pystr option \<times> event list" where
  "transcribe_audio e s audio_path =
     (case model_path s of
        None \<Rightarrow> (None, [])
      | Some model \<Rightarrow>
          if model = [] \<or> \<not> model_exists e then (None, [])
          else
            (case engine e of
               Exited returncode out err \<Rightarrow>
                 if returncode = 0
                 then (clean_transcription (py_strip out), [Whisper (whisper_cmd s model audio_path)])
                 else (None, [Whisper (whisper_cmd s model audio_path)])
             | TimeoutExpired \<Rightarrow>
                 (None, Whisper (whisper_cmd s model audio_path)
                        # send_notification e timeout_title (u ''Audio processing took too long'') 5 None)
             | OtherError \<Rightarrow> (None, [Whisper (whisper_cmd s model audio_path)])))"

text \<open>\<open>_save_transcription\<close>: an exception while writing the record is printed and
  dropped.\<close>

definition save_transcription :: "env \<Rightarrow> ptt \<Rightarrow> pystr \<Rightarrow> rat \<Rightarrow> event list" where
  "save_transcription e s transcription duration =
     (if transcription = [] then []
      else if save_raises e then []
      else [SaveTranscription transcription duration (audio_device s) (model_path s)])"

subsection \<open>The cycle that the release of the key starts\<close>

text \<open>
  \<open>audio_duration\<close> is a float in the program. The quotient of the two integers is
  rounded once, and its values closest to \<open>0.3\<close> are \<open>0.256\<close> (4 chunks) and \<open>0.32\<close>
  (5 chunks), so the comparison with \<open>0.3\<close> has the same result as on rationals.
\<close>

definition audio_duration :: "ptt \<Rightarrow> rat" where
  "audio_duration s = of_nat (length (audio_frames s) * CHUNK) / of_nat RATE"

text \<open>The body of the \<open>try\<close> block, lines 256 to 300; an exception in it is caught by
  \<open>except Exception\<close> and ends the block.\<close>

definition cycle_body :: "env \<Rightarrow> ptt \<Rightarrow> pystr \<Rightarrow> event list" where
  "cycle_body e s temp =
     (if wave_raises e then []
      else WaveWrite temp CHANNELS SAMPLE_SIZE RATE (concat (audio_frames s))
        # (if length (audio_frames s) = 0 then []
           else if audio_duration s < 3 / 10 then []
           else let (transcription, evs) = transcribe_audio e s temp in
             evs @ (case transcription of
                      None \<Rightarrow> []
                    | Some t \<Rightarrow>
                        if t = [] then []
                        else if clipboard_raises e then []
                        else ClipboardCopy t
                             # save_transcription e s t (audio_duration s)
                             @ send_notification e (u ''Completed'') (u ''Transcribed'') 1 None)))"

text \<open>\<open>os.unlink\<close> on the set of files that exist.\<close>

datatype os_error = FileNotFoundError

definition os_unlink :: "pystr \<Rightarrow> pystr set \<Rightarrow> os_error + pystr set" where
  "os_unlink p files = (if p \<in> files then Inr (files - {p}) else Inl FileNotFoundError)"

text \<open>
  \<open>stop_recording_and_transcribe\<close>, on the recorder and the set of files that exist.
  The \<open>finally\<close> block runs on every way out of the \<open>try\<close> block and ignores an
  exception of \<open>os.unlink\<close>.
\<close>

definition stop_recording_and_transcribe ::
    "env \<Rightarrow> ptt \<Rightarrow> pystr set \<Rightarrow> ptt \<times> pystr set \<times> event list \<times> outcome" where
  "stop_recording_and_transcribe e s files =
     (if \<not> is_recording s then (s, files, [], Returned)
      else let s1 = s\<lparr>is_recording := False\<rparr>;
               processing = send_notification e (u ''Processing'') (u ''Transcribing...'') 1 None
           in case temp_path e of
                None \<Rightarrow> (s1, files, processing, Raised)
              | Some temp \<Rightarrow>
                  let files1 = insert temp files;
                      evs = cycle_body e s1 temp;
                      files2 = (case os_unlink temp files1 of Inr fs \<Rightarrow> fs | Inl err \<Rightarrow> files1)
                  in (s1, files2, processing @ [TempFile temp] @ evs @ [Unlink temp], Returned))"

subsection \<open>The keyboard\<close>

text \<open>Each handler starts a thread for its target, or does nothing.\<close>

datatype task = StartRecording | StopRecordingAndTranscribe

definition on_key_press :: "key \<Rightarrow> ptt \<Rightarrow> task list" where
  "on_key_press k s =
     (if k = push_to_talk_key s then (if \<not> is_recording s then [StartRecording] else []) else [])"

definition on_key_release :: "key \<Rightarrow> ptt \<Rightarrow> task list" where
  "on_key_release k s =
     (if k = push_to_talk_key s then (if is_recording s then [StopRecordingAndTranscribe] else [])
      else [])"

section \<open>Notions used in the statements\<close>

text \<open>Kinds of events: a run of the engine, a delivery of a transcript, and the title
  that a notification event carries.\<close>

fun is_whisper :: "event \<Rightarrow> bool" where
  "is_whisper (Whisper cmd) = True"
| "is_whisper ev = False"

fun is_delivery :: "event \<Rightarrow> bool" where
  "is_delivery (ClipboardCopy t) = True"
| "is_delivery (SaveTranscription t d dev m) = True"
| "is_delivery ev = False"

fun notification_title :: "event \<Rightarrow> pystr option" where
  "notification_title (NotifySend title message ms icon) = Some title"
| "notification_title (PlyerNotify title message timeout icon) = Some title"
| "notification_title (ConsoleNotify title message) = Some title"
| "notification_title ev = None"

text \<open>Text in which every whitespace character is a single blank between two other
  characters or at an end.\<close>

fun single_spaced :: "pystr \<Rightarrow> bool" where
  "single_spaced [] = True"
| "single_spaced [c] = (is_space c \<longrightarrow> c = Latin CHR '' '')"
| "single_spaced (c # d # r) =
     ((is_space c \<longrightarrow> c = Latin CHR '' '' \<and> \<not> is_space d) \<and> single_spaced (d # r))"

text \<open>A host with \<open>notify-send\<close>, an engine that answers \<open>you\<close>, and a recorder at
  rest; a session of three chunks (0.192 s).\<close>

definition example_env :: env where
  "example_env = \<lparr>notify_send_available = True, plyer_available = False,
     notify_send_raises = (\<lambda>title. False), temp_path = Some (u ''/tmp/tmpa1b2c3.wav''),
     wave_raises = False, model_exists = True, engine = Exited 0 (u ''you'') [],
     clipboard_raises = False, save_raises = False, stream_open_raises = False,
     reads = [Data [], Data [], Data []]\<rparr>"

definition example_ptt :: ptt where
  "example_ptt = \<lparr>whisper_path = u ''whisper-cli'', model_path = Some (u ''ggml-base.bin''),
     audio_device = None, is_recording = False, audio_frames = [], push_to_talk_key = AltL\<rparr>"

definition short_session :: ptt where
  "short_session = example_ptt\<lparr>is_recording := True, audio_frames := [[], [], []]\<rparr>"

section \<open>Notifications and the guards of the recorder\<close>

lemma strip_where_Nil_iff: "strip_where P s = [] \<longleftrightarrow> (\<forall>c\<in>set s. P c)"
proof
  assume "strip_where P s = []"
  then have "\<forall>x\<in>set (dropWhile P s). P x"
    by (simp add: strip_where_def)
  then have "dropWhile P s = []"
    using hd_dropWhile [of P s] hd_in_set [of "dropWhile P s"] by blast
  then show "\<forall>c\<in>set s. P c"
    by simp
next
  assume "\<forall>c\<in>set s. P c"
  then show "strip_where P s = []"
    by (auto simp: strip_where_def dest: set_dropWhileD)
qed

lemma py_strip_Nil_iff: "py_strip s = [] \<longleftrightarrow> (\<forall>c\<in>set s. is_space c)"
  by (simp add: py_strip_def strip_where_Nil_iff)

text \<open>
  C10. When the title or the message is empty or made of whitespace only,
  \<open>_send_notification\<close> returns at once: no transport (\<open>notify-send\<close>, \<open>plyer\<close>, the
  console) is called, whatever the host offers.
\<close>

theorem send_notification_blank:
  "(\<forall>c\<in>set title. is_space c) \<or> (\<forall>c\<in>set message. is_space c) \<Longrightarrow>
   send_notification e title message timeout icon = []"
  by (auto simp: send_notification_def py_strip_Nil_iff)

theorem send_notification_blank_witness:
  "list_all is_space (u ''  '') \<and>
   send_notification example_env (u ''  '') (u ''Recording...'') 1 None = []"
proof -
  have h: "\<forall>c\<in>set (u ''  ''). is_space c"
    by (simp add: u_def latin_space_def)
  then have "(\<forall>c\<in>set (u ''  ''). is_space c) \<or> (\<forall>c\<in>set (u ''Recording...''). is_space c)"
    by (rule disjI1)
  from send_notification_blank [OF this] h show ?thesis
    by (simp add: list_all_iff)
qed

text \<open>
  C8. \<open>start_recording\<close> on a recorder that is recording changes nothing (flag, frames)
  and has no effect (no notification, no stream), and the press handler starts no task;
  \<open>stop_recording_and_transcribe\<close> on a recorder that is not recording changes nothing
  and has no effect (no temporary file, no encoding, no engine, no delivery), and the
  release handler starts no task.
\<close>

theorem reentrant_noop:
  assumes "is_recording s" and "\<not> is_recording t"
  shows "start_recording e s = (s, []) \<and> on_key_press k s = [] \<and>
         stop_recording_and_transcribe e t files = (t, files, [], Returned) \<and>
         on_key_release k t = []"
  using assms
  by (simp add: start_recording_def stop_recording_and_transcribe_def on_key_press_def
      on_key_release_def)

theorem reentrant_noop_witness:
  "is_recording (example_ptt\<lparr>is_recording := True\<rparr>) \<and> \<not> is_recording example_ptt \<and>
   start_recording example_env (example_ptt\<lparr>is_recording := True\<rparr>)
     = (example_ptt\<lparr>is_recording := True\<rparr>, []) \<and>
   on_key_press AltL (example_ptt\<lparr>is_recording := True\<rparr>) = [] \<and>
   stop_recording_and_transcribe example_env example_ptt {} = (example_ptt, {}, [], Returned) \<and>
   on_key_release AltL example_ptt = []"
proof -
  have a: "is_recording (example_ptt\<lparr>is_recording := True\<rparr>)" by simp
  have b: "\<not> is_recording example_ptt" by (simp add: example_ptt_def)
  from reentrant_noop [OF a b, of example_env AltL "{}"] a b show ?thesis
    by simp
qed

section \<open>The cycle\<close>

lemma send_notification_titles:
  "ev \<in> set (send_notification e title message timeout icon) \<Longrightarrow>
   notification_title ev = Some title"
  by (auto simp: send_notification_def fallback_notification_def split: if_splits)

lemma send_notification_no_whisper [simp]:
  "filter is_whisper (send_notification e title message timeout icon) = []"
  by (auto simp: send_notification_def fallback_notification_def)

lemma send_notification_no_delivery [simp]:
  "filter is_delivery (send_notification e title message timeout icon) = []"
  by (auto simp: send_notification_def fallback_notification_def)

lemma save_transcription_no_whisper [simp]:
  "filter is_whisper (save_transcription e s t d) = []"
  by (simp add: save_transcription_def)

lemma transcribe_audio_whisper_once:
  "length (filter is_whisper (snd (transcribe_audio e s p))) \<le> 1"
  by (simp add: transcribe_audio_def split: option.splits engine_result.splits)

lemma cycle_body_whisper_once:
  "length (filter is_whisper (cycle_body e s p)) \<le> 1"
  using transcribe_audio_whisper_once [of e s p]
  by (auto simp: cycle_body_def split: prod.splits option.splits)

lemma timeout_title_not_blank: "py_strip timeout_title \<noteq> []"
  by (simp add: py_strip_Nil_iff timeout_title_def)

lemma timeout_message_not_blank: "py_strip (u ''Audio processing took too long'') \<noteq> []"
  by (simp add: py_strip_Nil_iff u_def latin_space_def)

lemma processing_notification:
  "send_notification example_env (u ''Processing'') (u ''Transcribing...'') 1 None
   = [NotifySend (u ''Processing'') (u ''Transcribing...'') 1000 None]"
  by (simp add: send_notification_def py_strip_Nil_iff example_env_def u_def latin_space_def)

text \<open>
  C7. When the engine's subprocess runs into its timeout, \<open>_transcribe_audio\<close> returns
  no transcript, the engine has been started once, and the timeout notification is sent:
  whichever transports the host has, at least one is called, each with the timeout's own
  title, which is not the title of any other notification of the cycle. A transcript is
  returned only when the engine exits with code zero. No call of \<open>_transcribe_audio\<close>
  and no cycle starts the engine more than once.
\<close>

theorem timeout_is_failure:
  "(engine e = TimeoutExpired \<longrightarrow>
      fst (transcribe_audio e s p) = None \<and>
      (model_path s = Some model \<and> model \<noteq> [] \<and> model_exists e \<longrightarrow>
         snd (transcribe_audio e s p) =
           Whisper (whisper_cmd s model p)
           # send_notification e timeout_title (u ''Audio processing took too long'') 5 None \<and>
         send_notification e timeout_title (u ''Audio processing took too long'') 5 None \<noteq> [] \<and>
         (\<forall>ev\<in>set (send_notification e timeout_title (u ''Audio processing took too long'') 5 None).
            notification_title ev = Some timeout_title))) \<and>
   timeout_title \<notin> {u ''Start'', u ''Processing'', u ''Completed''} \<and>
   (fst (transcribe_audio e s p) = Some t \<longrightarrow> (\<exists>out err. engine e = Exited 0 out err)) \<and>
   length (filter is_whisper (snd (transcribe_audio e s p))) \<le> 1 \<and>
   length (filter is_whisper (fst (snd (snd (stop_recording_and_transcribe e s files))))) \<le> 1"
proof (intro conjI impI)
  assume "engine e = TimeoutExpired"
  then show "fst (transcribe_audio e s p) = None"
    by (simp add: transcribe_audio_def split: option.splits)
next
  assume "engine e = TimeoutExpired" and "model_path s = Some model \<and> model \<noteq> [] \<and> model_exists e"
  then show "snd (transcribe_audio e s p) =
           Whisper (whisper_cmd s model p)
           # send_notification e timeout_title (u ''Audio processing took too long'') 5 None"
    by (simp add: transcribe_audio_def)
next
  show "send_notification e timeout_title (u ''Audio processing took too long'') 5 None \<noteq> []"
    using timeout_title_not_blank timeout_message_not_blank
    by (simp add: send_notification_def fallback_notification_def)
next
  show "\<forall>ev\<in>set (send_notification e timeout_title (u ''Audio processing took too long'') 5 None).
            notification_title ev = Some timeout_title"
    by (simp add: send_notification_titles)
next
  show "timeout_title \<notin> {u ''Start'', u ''Processing'', u ''Completed''}"
    by (simp add: timeout_title_def u_def)
next
  assume "fst (transcribe_audio e s p) = Some t"
  then show "\<exists>out err. engine e = Exited 0 out err"
    by (auto simp: transcribe_audio_def split: option.splits engine_result.splits if_splits)
next
  show "length (filter is_whisper (snd (transcribe_audio e s p))) \<le> 1"
    by (rule transcribe_audio_whisper_once)
next
  show "length (filter is_whisper (fst (snd (snd (stop_recording_and_transcribe e s files))))) \<le> 1"
    using cycle_body_whisper_once [of e "s\<lparr>is_recording := False\<rparr>"]
    by (simp add: stop_recording_and_transcribe_def Let_def split: option.splits)
qed

theorem timeout_is_failure_witness:
  "engine (example_env\<lparr>engine := TimeoutExpired\<rparr>) = TimeoutExpired \<and>
   model_path example_ptt = Some (u ''ggml-base.bin'') \<and>
   model_exists (example_env\<lparr>engine := TimeoutExpired\<rparr>) \<and>
   transcribe_audio (example_env\<lparr>engine := TimeoutExpired\<rparr>) example_ptt (u ''/tmp/tmpa1b2c3.wav'')
     = (None,
        [Whisper (whisper_cmd example_ptt (u ''ggml-base.bin'') (u ''/tmp/tmpa1b2c3.wav'')),
         NotifySend timeout_title (u ''Audio processing took too long'') 5000 None])"
proof -
  let ?e = "example_env\<lparr>engine := TimeoutExpired\<rparr>"
  have a: "engine ?e = TimeoutExpired" by simp
  have b: "model_path example_ptt = Some (u ''ggml-base.bin'') \<and> u ''ggml-base.bin'' \<noteq> []
           \<and> model_exists ?e"
    by (simp add: example_ptt_def example_env_def u_def)
  have n: "send_notification ?e timeout_title (u ''Audio processing took too long'') 5 None
           = [NotifySend timeout_title (u ''Audio processing took too long'') 5000 None]"
    using timeout_title_not_blank timeout_message_not_blank
    by (simp add: send_notification_def example_env_def)
  from timeout_is_failure [of ?e example_ptt "u ''/tmp/tmpa1b2c3.wav''" "u ''ggml-base.bin''"] a b
  have "fst (transcribe_audio ?e example_ptt (u ''/tmp/tmpa1b2c3.wav'')) = None"
    and "snd (transcribe_audio ?e example_ptt (u ''/tmp/tmpa1b2c3.wav'')) =
           Whisper (whisper_cmd example_ptt (u ''ggml-base.bin'') (u ''/tmp/tmpa1b2c3.wav''))
           # send_notification ?e timeout_title (u ''Audio processing took too long'') 5 None"
    by blast+
  then have "transcribe_audio ?e example_ptt (u ''/tmp/tmpa1b2c3.wav'')
     = (None,
        [Whisper (whisper_cmd example_ptt (u ''ggml-base.bin'') (u ''/tmp/tmpa1b2c3.wav'')),
         NotifySend timeout_title (u ''Audio processing took too long'') 5000 None])"
    by (simp only: n prod_eq_iff fst_conv snd_conv simp_thms)
  with a b show ?thesis by blast
qed



text \<open>
  C1 (as the code has it). A session that is recording and has no chunk, or whose
  duration (chunks times 1024, over 16000) is below 0.3 s, is discarded after the
  encoding: the cycle sends the processing notification, creates the temporary file,
  writes the WAV file into it (unless the writing raises) and removes it. The engine is
  not started and nothing is delivered (no clipboard, no record, no completion
  notification); the recorder is no longer recording. When the temporary file cannot be
  created, the cycle ends with that exception after the notification.
\<close>

theorem short_session_discarded:
  assumes "is_recording s" and "audio_frames s = [] \<or> audio_duration s < 3 / 10"
  shows "stop_recording_and_transcribe e s files =
           (case temp_path e of
              None \<Rightarrow> (s\<lparr>is_recording := False\<rparr>, files,
                        send_notification e (u ''Processing'') (u ''Transcribing...'') 1 None, Raised)
            | Some temp \<Rightarrow>
                (s\<lparr>is_recording := False\<rparr>, files - {temp},
                 send_notification e (u ''Processing'') (u ''Transcribing...'') 1 None
                 @ [TempFile temp]
                 @ (if wave_raises e then []
                    else [WaveWrite temp CHANNELS SAMPLE_SIZE RATE (concat (audio_frames s))])
                 @ [Unlink temp], Returned)) \<and>
         filter is_whisper (fst (snd (snd (stop_recording_and_transcribe e s files)))) = [] \<and>
         filter is_delivery (fst (snd (snd (stop_recording_and_transcribe e s files)))) = []"
  using assms
  by (auto simp: stop_recording_and_transcribe_def Let_def os_unlink_def cycle_body_def
      audio_duration_def split: option.splits)

theorem short_session_discarded_witness:
  "is_recording short_session \<and> audio_duration short_session < 3 / 10 \<and>
   stop_recording_and_transcribe example_env short_session {}
     = (short_session\<lparr>is_recording := False\<rparr>, {},
        [NotifySend (u ''Processing'') (u ''Transcribing...'') 1000 None,
         TempFile (u ''/tmp/tmpa1b2c3.wav''),
         WaveWrite (u ''/tmp/tmpa1b2c3.wav'') CHANNELS SAMPLE_SIZE RATE [],
         Unlink (u ''/tmp/tmpa1b2c3.wav'')], Returned)"
proof -
  have a: "is_recording short_session" by (simp add: short_session_def)
  have b: "audio_duration short_session < 3 / 10"
    by (simp add: audio_duration_def short_session_def CHUNK_def RATE_def)
  then have c: "audio_frames short_session = [] \<or> audio_duration short_session < 3 / 10"
    by (rule disjI2)
  have d: "temp_path example_env = Some (u ''/tmp/tmpa1b2c3.wav'')"
    and e: "\<not> wave_raises example_env"
    by (simp_all add: example_env_def)
  have f: "concat (audio_frames short_session) = []"
    by (simp add: short_session_def)
  from short_session_discarded [OF a c, of example_env "{}"]
  have "stop_recording_and_transcribe example_env short_session {}
     = (short_session\<lparr>is_recording := False\<rparr>, {},
        [NotifySend (u ''Processing'') (u ''Transcribing...'') 1000 None,
         TempFile (u ''/tmp/tmpa1b2c3.wav''),
         WaveWrite (u ''/tmp/tmpa1b2c3.wav'') CHANNELS SAMPLE_SIZE RATE [],
         Unlink (u ''/tmp/tmpa1b2c3.wav'')], Returned)"
    by (simp add: d e f processing_notification)
  with a b show ?thesis by blast
qed

text \<open>
  C1 as the spec states it fails: for a session of three chunks (0.192 s) the encode
  stage is reached and the WAV file is written before the session is discarded.
\<close>

theorem short_session_encoded_counterexample:
  "is_recording short_session \<and> audio_duration short_session < 3 / 10 \<and>
   WaveWrite (u ''/tmp/tmpa1b2c3.wav'') CHANNELS SAMPLE_SIZE RATE []
     \<in> set (fst (snd (snd (stop_recording_and_transcribe example_env short_session {}))))"
proof -
  have "is_recording short_session" by (simp add: short_session_def)
  moreover have "audio_duration short_session < 3 / 10"
    by (simp add: audio_duration_def short_session_def CHUNK_def RATE_def)
  moreover have "cycle_body example_env (short_session\<lparr>is_recording := False\<rparr>) (u ''/tmp/tmpa1b2c3.wav'')
     = [WaveWrite (u ''/tmp/tmpa1b2c3.wav'') CHANNELS SAMPLE_SIZE RATE []]"
    by (simp add: cycle_body_def audio_duration_def short_session_def example_env_def
        CHUNK_def RATE_def)
  then have "WaveWrite (u ''/tmp/tmpa1b2c3.wav'') CHANNELS SAMPLE_SIZE RATE []
     \<in> set (fst (snd (snd (stop_recording_and_transcribe example_env short_session {}))))"
    by (simp add: stop_recording_and_transcribe_def Let_def short_session_def example_env_def)
  ultimately show ?thesis by blast
qed

section \<open>Lemmas about the filter\<close>

subsection \<open>Substitution\<close>

lemma re_sub_no_match: "\<not> re_search p s \<Longrightarrow> re_sub p s = s"
  by (induction s) auto

lemma re_match_append:
  "Spaces \<notin> set p \<Longrightarrow> re_match (p @ q) s = Option.bind (re_match p s) (re_match q)"
proof (induction p arbitrary: s)
  case Nil
  then show ?case by simp
next
  case (Cons a p)
  then show ?case
    by (cases a; cases s) auto
qed

lemma hms_ms_match_hms: "re_match re_hms_ms s \<noteq> None \<Longrightarrow> re_match re_hms s \<noteq> None"
proof -
  have "Spaces \<notin> set re_hms" by (simp add: re_hms_def)
  then have "re_match re_hms_ms s = Option.bind (re_match re_hms s) (re_match [Lit (Latin CHR ''.''), Digit, Digit, Digit])"
    unfolding re_hms_ms_def by (rule re_match_append)
  then show "re_match re_hms_ms s \<noteq> None \<Longrightarrow> re_match re_hms s \<noteq> None"
    by (cases "re_match re_hms s") auto
qed

lemma hms_not_empty: "re_match re_hms [] = None"
  by (simp add: re_hms_def)

lemma hms_ms_not_empty: "re_match re_hms_ms [] = None"
  by (simp add: re_hms_ms_def re_hms_def)

lemma srt_not_empty: "re_match re_srt [] = None"
  by (simp add: re_srt_def)

lemma re_match_Lit_Cons: "re_match (Lit a # p) (c # cs) \<noteq> None \<Longrightarrow> re_match p cs \<noteq> None"
  by (cases "c = a") simp_all

lemma srt_match_hms:
  assumes "re_match re_srt (c # cs) \<noteq> None"
  shows "re_match re_hms cs \<noteq> None"
proof -
  let ?q = "[Lit (Latin CHR ''.''), Digit, Digit, Digit] @ [Spaces] @ map Lit (u ''-->'') @ [Spaces]
            @ re_hms_ms @ [Lit (Latin CHR '']'')]"
  have eq: "re_srt = Lit (Latin CHR ''['') # (re_hms @ ?q)"
    by (simp add: re_srt_def re_hms_ms_def)
  have "re_match (Lit (Latin CHR ''['') # (re_hms @ ?q)) (c # cs) \<noteq> None"
    using assms unfolding eq .
  then have "re_match (re_hms @ ?q) cs \<noteq> None"
    by (rule re_match_Lit_Cons)
  moreover have "Spaces \<notin> set re_hms" by (simp add: re_hms_def)
  then have "re_match (re_hms @ ?q) cs = Option.bind (re_match re_hms cs) (re_match ?q)"
    by (rule re_match_append)
  ultimately have "Option.bind (re_match re_hms cs) (re_match ?q) \<noteq> None"
    by metis
  then show ?thesis
    by (cases "re_match re_hms cs") auto
qed

lemma search_hms_ms_hms: "re_search re_hms_ms s \<Longrightarrow> re_search re_hms s"
proof (induction s)
  case Nil
  then show ?case by (simp add: hms_ms_not_empty)
next
  case (Cons c cs)
  show ?case
  proof (cases "re_match re_hms_ms (c # cs) = None")
    case True
    with Cons show ?thesis by simp
  next
    case False
    then have "re_match re_hms (c # cs) \<noteq> None" by (rule hms_ms_match_hms)
    then show ?thesis by simp
  qed
qed

lemma search_srt_hms: "re_search re_srt s \<Longrightarrow> re_search re_hms s"
proof (induction s)
  case Nil
  then show ?case by (simp add: srt_not_empty)
next
  case (Cons c cs)
  show ?case
  proof (cases "re_match re_srt (c # cs) = None")
    case True
    with Cons show ?thesis by simp
  next
    case False
    then have "re_match re_hms cs \<noteq> None" by (rule srt_match_hms)
    then have "re_search re_hms cs" by (cases cs) auto
    then show ?thesis by simp
  qed
qed

lemma passes_no_hms:
  assumes "\<not> re_search re_hms s"
  shows "re_sub re_hms (re_sub re_hms_ms (re_sub re_srt s)) = s"
proof -
  have "\<not> re_search re_srt s" using assms search_srt_hms by blast
  then have 1: "re_sub re_srt s = s" by (rule re_sub_no_match)
  have "\<not> re_search re_hms_ms s" using assms search_hms_ms_hms by blast
  then have 2: "re_sub re_hms_ms s = s" by (rule re_sub_no_match)
  have 3: "re_sub re_hms s = s" using assms by (rule re_sub_no_match)
  show ?thesis by (simp only: 1 2 3)
qed

subsection \<open>Splitting, joining, trimming\<close>

lemma py_split_words: "w \<in> set (py_split x) \<Longrightarrow> w \<noteq> [] \<and> (\<forall>c\<in>set w. \<not> is_space c)"
proof (induction x rule: py_split.induct)
  case 1
  then show ?case by simp
next
  case (2 c cs)
  show ?case
  proof (cases "is_space c")
    case True
    with "2.prems" have "w \<in> set (py_split cs)" by simp
    with "2.IH"(1) [OF True] show ?thesis by blast
  next
    case False
    from "2.prems" False
    have "w = takeWhile (\<lambda>x. \<not> is_space x) (c # cs) \<or> w \<in> set (py_split (dropWhile (\<lambda>x. \<not> is_space x) cs))"
      by simp
    then show ?thesis
    proof
      assume w: "w = takeWhile (\<lambda>x. \<not> is_space x) (c # cs)"
      then have "w \<noteq> []" using False by simp
      moreover have "\<forall>c\<in>set w. \<not> is_space c"
        unfolding w using set_takeWhileD [of _ "\<lambda>x. \<not> is_space x" "c # cs"] by blast
      ultimately show ?thesis by simp
    next
      assume "w \<in> set (py_split (dropWhile (\<lambda>x. \<not> is_space x) cs))"
      with "2.IH"(2) [OF False] show ?thesis by blast
    qed
  qed
qed

lemma py_split_Nil_iff: "py_split x = [] \<longleftrightarrow> (\<forall>c\<in>set x. is_space c)"
  by (induction x rule: py_split.induct) auto

lemma py_join_Cons: "py_join sep (w # ws) = (if ws = [] then w else w @ sep @ py_join sep ws)"
  by (cases ws) simp_all

lemma single_spaced_space: "single_spaced y \<Longrightarrow> c \<in> set y \<Longrightarrow> is_space c \<Longrightarrow> c = Latin CHR '' ''"
  by (induction y rule: single_spaced.induct) auto

lemma single_spaced_Cons:
  "single_spaced (c # r) \<longleftrightarrow>
     (is_space c \<longrightarrow> c = Latin CHR '' '' \<and> (r \<noteq> [] \<longrightarrow> \<not> is_space (hd r))) \<and> single_spaced r"
  by (cases r) auto

lemma single_spaced_append: "single_spaced (a @ b) \<Longrightarrow> single_spaced a \<and> single_spaced b"
proof (induction a)
  case Nil
  then show ?case by simp
next
  case (Cons c a)
  then show ?case
    by (cases a) (auto simp: single_spaced_Cons)
qed

lemma single_spaced_appendI:
  "single_spaced a \<Longrightarrow> single_spaced b \<Longrightarrow>
   (a \<noteq> [] \<Longrightarrow> b \<noteq> [] \<Longrightarrow> is_space (last a) \<Longrightarrow> \<not> is_space (hd b)) \<Longrightarrow>
   single_spaced (a @ b)"
proof (induction a)
  case Nil
  then show ?case by simp
next
  case (Cons c a)
  then show ?case
    by (cases a) (auto simp: single_spaced_Cons split: if_splits)
qed

lemma spacefree_single_spaced: "\<forall>c\<in>set w. \<not> is_space c \<Longrightarrow> single_spaced w"
  by (induction w) (auto simp: single_spaced_Cons)

lemma hd_py_join:
  "ws \<noteq> [] \<Longrightarrow> hd ws \<noteq> [] \<Longrightarrow> py_join sep ws \<noteq> [] \<and> hd (py_join sep ws) = hd (hd ws)"
  by (cases ws) (auto simp: py_join_Cons)

lemma join_words_single_spaced:
  "\<forall>w\<in>set ws. w \<noteq> [] \<and> (\<forall>c\<in>set w. \<not> is_space c) \<Longrightarrow>
   single_spaced (py_join [Latin CHR '' ''] ws)"
proof (induction ws)
  case Nil
  then show ?case by simp
next
  case (Cons w ws)
  show ?case
  proof (cases "ws = []")
    case True
    with Cons.prems show ?thesis by (simp add: spacefree_single_spaced)
  next
    case False
    let ?j = "py_join [Latin CHR '' ''] ws"
    have w: "single_spaced w" using Cons.prems by (simp add: spacefree_single_spaced)
    have j: "single_spaced ?j" using Cons by simp
    have "hd ws \<noteq> []" using False Cons.prems by (cases ws) auto
    with False have hj: "?j \<noteq> [] \<and> hd ?j = hd (hd ws)" by (simp add: hd_py_join)
    have "\<not> is_space (hd (hd ws))" using False Cons.prems \<open>hd ws \<noteq> []\<close> by (cases ws) auto
    with hj j have "single_spaced (Latin CHR '' '' # ?j)"
      by (simp add: single_spaced_Cons)
    moreover have "w \<noteq> []" and "\<not> is_space (last w)" using Cons.prems by auto
    ultimately have "single_spaced (w @ Latin CHR '' '' # ?j)"
      using w by (intro single_spaced_appendI) auto
    with False show ?thesis by (simp add: py_join_Cons)
  qed
qed

lemma join_split_single_spaced: "single_spaced (py_join [Latin CHR '' ''] (py_split x))"
  by (rule join_words_single_spaced) (use py_split_words in blast)

lemma join_split_single_spaced_id:
  "single_spaced y \<Longrightarrow> y = [] \<or> \<not> is_space (last y) \<Longrightarrow>
   py_join [Latin CHR '' ''] (py_split y) = dropWhile is_space y"
proof (induction y rule: py_split.induct)
  case 1
  then show ?case by simp
next
  case (2 c cs)
  show ?case
  proof (cases "is_space c")
    case True
    with 2 show ?thesis
      by (cases cs) (auto simp: single_spaced_Cons)
  next
    case False
    let ?w = "takeWhile (\<lambda>x. \<not> is_space x) (c # cs)"
    let ?r = "dropWhile (\<lambda>x. \<not> is_space x) cs"
    have y: "?w @ ?r = c # cs" using False by simp
    have ssr: "single_spaced ?r"
      using "2.prems"(1) single_spaced_append [of ?w ?r] by (simp only: y)
    have lastr: "?r = [] \<or> \<not> is_space (last ?r)"
    proof (cases "?r = []")
      case True then show ?thesis by simp
    next
      case False
      then have "last (?w @ ?r) = last ?r" by (rule last_appendR)
      then have "last ?r = last (c # cs)" by (simp only: y)
      with "2.prems"(2) show ?thesis by simp
    qed
    have ih: "py_join [Latin CHR '' ''] (py_split ?r) = dropWhile is_space ?r"
      using "2.IH"(2) [OF False ssr lastr] .
    show ?thesis
    proof (cases "?r = []")
      case True
      have "py_split ?r = []" by (simp only: True py_split.simps)
      moreover from True y have "?w = c # cs" by (metis append_Nil2)
      moreover have "py_split (c # cs) = ?w # py_split ?r" using False by simp
      ultimately have "py_split (c # cs) = [c # cs]" by (simp only:)
      then show ?thesis using False by simp
    next
      case rne: False
      then have hdr: "is_space (hd ?r)" using hd_dropWhile [of "\<lambda>x. \<not> is_space x" cs] by simp
      obtain d r' where r: "?r = d # r'" using rne by (cases ?r) auto
      with hdr have d: "is_space d" by simp
      from ssr r d have dsp: "d = Latin CHR '' ''" and r'hd: "r' \<noteq> [] \<longrightarrow> \<not> is_space (hd r')"
        by (auto simp: single_spaced_Cons)
      from lastr r d have "r' \<noteq> []" by (cases r') auto
      with r'hd have "dropWhile is_space r' = r'" by (cases r') auto
      with r d have dr: "dropWhile is_space ?r = r'" by simp
      have "py_split ?r \<noteq> []"
        using \<open>r' \<noteq> []\<close> r'hd r by (cases r') (auto simp: py_split_Nil_iff)
      then have "py_join [Latin CHR '' ''] (py_split (c # cs)) = ?w @ [Latin CHR '' ''] @ py_join [Latin CHR '' ''] (py_split ?r)"
        using False by (simp add: py_join_Cons)
      also have "\<dots> = ?w @ [Latin CHR '' ''] @ r'" by (simp only: ih dr)
      also have "\<dots> = ?w @ ?r" by (simp only: r dsp append_Cons append_Nil)
      also have "\<dots> = c # cs" by (rule y)
      finally show ?thesis using False by simp
    qed
  qed
qed

lemma strip_where_infix: "\<exists>a b. z = a @ strip_where P z @ b"
proof -
  let ?d = "dropWhile P z"
  have 1: "z = takeWhile P z @ ?d" by simp
  have "rev (takeWhile P (rev ?d) @ dropWhile P (rev ?d))
        = rev (dropWhile P (rev ?d)) @ rev (takeWhile P (rev ?d))"
    by (rule rev_append)
  moreover have "takeWhile P (rev ?d) @ dropWhile P (rev ?d) = rev ?d"
    by (rule takeWhile_dropWhile_id)
  ultimately have "rev (rev ?d) = rev (dropWhile P (rev ?d)) @ rev (takeWhile P (rev ?d))"
    by (simp only:)
  then have 2: "?d = strip_where P z @ rev (takeWhile P (rev ?d))"
    by (simp only: rev_rev_ident strip_where_def)
  from 1 2 show ?thesis by metis
qed

lemma strip_where_ends:
  assumes "strip_where P z \<noteq> []"
  shows "\<not> P (hd (strip_where P z)) \<and> \<not> P (last (strip_where P z))"
proof -
  let ?d = "dropWhile P z"
  let ?e = "dropWhile P (rev ?d)"
  have e: "?e \<noteq> []" using assms by (simp add: strip_where_def)
  then have "\<not> P (hd ?e)" by (rule hd_dropWhile)
  then have l: "\<not> P (last (strip_where P z))"
    using e by (simp add: strip_where_def last_rev)
  have dne: "?d \<noteq> []"
  proof
    assume "?d = []"
    then have "?e = []" by (simp only: rev.simps dropWhile.simps)
    with e show False by contradiction
  qed
  have "rev ?d = takeWhile P (rev ?d) @ ?e" by simp
  then have "last (rev ?d) = last ?e" using e by (metis last_appendR)
  then have "hd ?d = last ?e" using dne by (simp add: last_rev)
  moreover have "\<not> P (hd ?d)" using dne by (rule hd_dropWhile)
  ultimately have "\<not> P (hd (strip_where P z))"
    using e by (simp add: strip_where_def hd_rev)
  with l show ?thesis by simp
qed

lemma strip_where_id:
  assumes "y = [] \<or> (\<not> P (hd y) \<and> \<not> P (last y))"
  shows "strip_where P y = y"
proof (cases "y = []")
  case True
  then show ?thesis by (simp add: strip_where_def)
next
  case False
  with assms have h: "\<not> P (hd y)" and l: "\<not> P (last y)" by auto
  from h False have 1: "dropWhile P y = y" by (cases y) auto
  from l False have "\<not> P (hd (rev y))" by (simp add: hd_rev)
  with False have 2: "dropWhile P (rev y) = rev y" by (cases "rev y") auto
  show ?thesis by (simp add: strip_where_def 1 2)
qed

lemma cleaned_text_normal:
  assumes "y = py_strip_chars (u '' .,!?;-'') (py_join (u '' '') (py_split x))"
  shows "py_strip_chars (u '' .,!?;-'') (py_join (u '' '') (py_split y)) = y"
proof -
  let ?P = "\<lambda>c. c \<in> set (u '' .,!?;-'')"
  let ?z = "py_join [Latin CHR '' ''] (py_split x)"
  have y: "y = strip_where ?P ?z" using assms by (simp add: py_strip_chars_def u_def)
  obtain a b where "?z = a @ y @ b" using strip_where_infix [of ?z ?P] y by auto
  moreover have "single_spaced ?z" by (rule join_split_single_spaced)
  ultimately have ss: "single_spaced y" using single_spaced_append by metis
  have ends: "y = [] \<or> (\<not> ?P (hd y) \<and> \<not> ?P (last y))"
    using strip_where_ends [of ?P ?z] y by blast
  have sp: "?P (Latin CHR '' '')" by (simp add: u_def)
  have nsp: "y = [] \<or> (\<not> is_space (hd y) \<and> \<not> is_space (last y))"
  proof (cases "y = []")
    case True then show ?thesis by simp
  next
    case False
    with ends have e: "\<not> ?P (hd y)" "\<not> ?P (last y)" by auto
    have "\<not> is_space (hd y)"
      using single_spaced_space [OF ss, of "hd y"] False e(1) sp by auto
    moreover have "\<not> is_space (last y)"
      using single_spaced_space [OF ss, of "last y"] False e(2) sp by auto
    ultimately show ?thesis by simp
  qed
  then have "py_join [Latin CHR '' ''] (py_split y) = dropWhile is_space y"
    using join_split_single_spaced_id [OF ss] by blast
  also have "\<dots> = y" using nsp by (cases y) auto
  finally have "py_join (u '' '') (py_split y) = y" by (simp add: u_def)
  moreover have "strip_where ?P y = y" using ends by (rule strip_where_id)
  ultimately show ?thesis by (simp add: py_strip_chars_def)
qed

lemmas filter_eval =
  clean_transcription_def cleaned_text_def u_def re_hms_def re_hms_ms_def re_srt_def
  py_strip_chars_def py_strip_def strip_where_def py_lower_def lower_latin_def
  latin_upper_def latin_lower_def latin_space_def false_positives_def
  meaningful_single_words_def digits_punct_only_def

lemma clean_transcription_Some:
  "clean_transcription raw = Some t \<Longrightarrow> raw \<noteq> [] \<and> t = cleaned_text raw \<and> t \<noteq> []"
  by (auto simp: clean_transcription_def Let_def split: if_splits)

lemma clean_transcription_cong:
  "raw \<noteq> [] \<Longrightarrow> raw' \<noteq> [] \<Longrightarrow> cleaned_text raw = cleaned_text raw' \<Longrightarrow>
   clean_transcription raw = clean_transcription raw'"
  by (simp add: clean_transcription_def)

text \<open>
  C3 (as the code has it). When the filter accepts an input and the accepted output
  contains no \<open>hh:mm:ss\<close> substring, the filter applied to that output accepts it and
  returns it unchanged.
\<close>

theorem filter_idempotent:
  assumes "clean_transcription raw = Some out" and "\<not> re_search re_hms out"
  shows "clean_transcription out = Some out"
proof -
  from assms(1) have raw: "raw \<noteq> []" and out: "out = cleaned_text raw" and ne: "out \<noteq> []"
    using clean_transcription_Some by blast+
  have "re_sub re_hms (re_sub re_hms_ms (re_sub re_srt out)) = out"
    using assms(2) by (rule passes_no_hms)
  then have "cleaned_text out = py_strip_chars (u '' .,!?;-'') (py_join (u '' '') (py_split out))"
    by (simp only: cleaned_text_def)
  also have "\<dots> = out"
    using out unfolding cleaned_text_def by (rule cleaned_text_normal)
  finally have "cleaned_text out = cleaned_text raw" using out by simp
  with ne raw have "clean_transcription out = clean_transcription raw"
    by (rule clean_transcription_cong)
  with assms(1) show ?thesis by simp
qed

theorem filter_idempotent_witness:
  "clean_transcription (u ''  Hello, world. '') = Some (u ''Hello, world'') \<and>
   \<not> re_search re_hms (u ''Hello, world'') \<and>
   clean_transcription (u ''Hello, world'') = Some (u ''Hello, world'')"
proof -
  have a: "clean_transcription (u ''  Hello, world. '') = Some (u ''Hello, world'')"
    by (simp add: filter_eval)
  have b: "\<not> re_search re_hms (u ''Hello, world'')"
    by (simp add: filter_eval)
  from filter_idempotent [OF a b] a b show ?thesis by blast
qed

text \<open>
  C3 as the spec states it fails: deleting \<open>12:34:56\<close> from \<open>1212:34:56:34:56\<close> joins
  the text around it into \<open>12:34:56\<close>, which the filter returns and, applied again,
  deletes.
\<close>

theorem filter_idempotent_counterexample:
  "clean_transcription (u ''1212:34:56:34:56 hello'') = Some (u ''12:34:56 hello'') \<and>
   clean_transcription (u ''12:34:56 hello'') = Some (u ''hello'')"
  by (simp add: filter_eval)

lemma set_py_split: "w \<in> set (py_split z) \<Longrightarrow> set w \<subseteq> set z"
proof (induction z rule: py_split.induct)
  case 1
  then show ?case by simp
next
  case (2 c cs)
  show ?case
  proof (cases "is_space c")
    case True
    with "2.prems" have "w \<in> set (py_split cs)" by simp
    with "2.IH"(1) [OF True] show ?thesis by auto
  next
    case False
    from "2.prems" False
    have "w = takeWhile (\<lambda>x. \<not> is_space x) (c # cs) \<or> w \<in> set (py_split (dropWhile (\<lambda>x. \<not> is_space x) cs))"
      by simp
    then show ?thesis
    proof
      assume "w = takeWhile (\<lambda>x. \<not> is_space x) (c # cs)"
      then show ?thesis using set_takeWhileD [of _ "\<lambda>x. \<not> is_space x" "c # cs"] by blast
    next
      assume "w \<in> set (py_split (dropWhile (\<lambda>x. \<not> is_space x) cs))"
      with "2.IH"(2) [OF False] have "set w \<subseteq> set (dropWhile (\<lambda>x. \<not> is_space x) cs)" by blast
      then show ?thesis using set_dropWhileD [of _ "\<lambda>x. \<not> is_space x" cs] by fastforce
    qed
  qed
qed

lemma set_strip_where: "set (strip_where P z) \<subseteq> set z"
proof -
  obtain a b where "z = a @ strip_where P z @ b" using strip_where_infix by blast
  then have "set z = set a \<union> set (strip_where P z) \<union> set b" by (metis set_append Un_assoc)
  then show ?thesis by blast
qed







lemma class_lower:
  assumes "is_digit c \<or> is_space c \<or> c \<in> set (u ''.,!?;:'')"
  shows "lower_char c = [c]"
proof -
  have all: "list_all (\<lambda>c. lower_char c = [c]) (u (''0123456789'' @ latin_space @ ''.,!?;:''))"
    by (simp add: u_def latin_space_def lower_latin_def latin_upper_def latin_lower_def)
  have "c \<in> set (u (''0123456789'' @ latin_space @ ''.,!?;:''))"
    using assms by (cases c) (auto simp: u_def)
  with all show ?thesis by (simp only: list_all_iff)
qed

lemma digits_punct_lower: "digits_punct_only t \<Longrightarrow> py_lower t = t"
  by (induction t) (simp_all add: digits_punct_only_def py_lower_def class_lower)

lemma meaningful_has_letter:
  "w \<in> set meaningful_single_words \<Longrightarrow>
   \<exists>c\<in>set w. \<not> (is_digit c \<or> is_space c \<or> c \<in> set (u ''.,!?;:''))"
  by (auto simp: meaningful_single_words_def u_def latin_space_def)

text \<open>
  C6 (as the code has it). When the cleaned text consists solely of digits, whitespace
  and the characters \<open>. , ! ? ; :\<close>, the filter rejects.
\<close>

theorem digits_punct_rejected:
  assumes "digits_punct_only (cleaned_text raw)"
  shows "clean_transcription raw = None"
proof -
  let ?t = "cleaned_text raw"
  let ?words = "py_split (py_strip (py_lower ?t))"
  have cls: "\<forall>c\<in>set ?t. is_digit c \<or> is_space c \<or> c \<in> set (u ''.,!?;:'')"
    using assms by (simp add: digits_punct_only_def list_all_iff)
  have low: "py_lower ?t = ?t" using assms by (rule digits_punct_lower)
  have "\<not> (length ?words = 1 \<and> hd ?words \<in> set meaningful_single_words)"
  proof
    assume a: "length ?words = 1 \<and> hd ?words \<in> set meaningful_single_words"
    then have "?words \<noteq> []" by auto
    then have "hd ?words \<in> set ?words" by (rule hd_in_set)
    then have "set (hd ?words) \<subseteq> set (py_strip (py_lower ?t))" by (rule set_py_split)
    also have "\<dots> \<subseteq> set (py_lower ?t)" unfolding py_strip_def by (rule set_strip_where)
    finally have "set (hd ?words) \<subseteq> set ?t" by (simp only: low)
    with cls have "\<forall>c\<in>set (hd ?words). is_digit c \<or> is_space c \<or> c \<in> set (u ''.,!?;:'')"
      by blast
    moreover from a meaningful_has_letter
    have "\<exists>c\<in>set (hd ?words). \<not> (is_digit c \<or> is_space c \<or> c \<in> set (u ''.,!?;:''))"
      by blast
    ultimately show False by blast
  qed
  then show ?thesis
    by (auto simp: clean_transcription_def Let_def assms)
qed

theorem digits_punct_rejected_witness:
  "digits_punct_only (cleaned_text (u '' 12:30, 4. '')) \<and>
   clean_transcription (u '' 12:30, 4. '') = None"
proof -
  have a: "digits_punct_only (cleaned_text (u '' 12:30, 4. ''))"
    by (simp add: filter_eval)
  from digits_punct_rejected [OF a] a show ?thesis by blast
qed

text \<open>
  C6 as the spec states it fails: \<open>1-2\<close> is made of digits and punctuation, with no
  letter, and the filter accepts it; the hyphen is not in the class of the pattern.
\<close>

theorem digits_hyphen_accepted_counterexample:
  "cleaned_text (u ''1-2'') = u ''1-2'' \<and>
   list_all (\<lambda>c. is_digit c \<or> c = Latin CHR ''-'') (u ''1-2'') \<and>
   clean_transcription (u ''1-2'') = Some (u ''1-2'')"
  by (simp add: filter_eval)

lemma re_match_suffix: "re_match p s = Some r \<Longrightarrow> \<exists>a. s = a @ r"
proof (induction p s arbitrary: r rule: re_match.induct)
  case (1 s)
  then show ?case by simp
next
  case (2 c p)
  then show ?case by simp
next
  case (3 c p x xs)
  then obtain a where "x = c" and "xs = a @ r" by (auto split: if_splits)
  then have "x # xs = (x # a) @ r" by simp
  then show ?case by blast
next
  case (4 p)
  then show ?case by simp
next
  case (5 p x xs)
  then obtain a where "xs = a @ r" by (auto split: if_splits)
  then have "x # xs = (x # a) @ r" by simp
  then show ?case by blast
next
  case (6 p)
  then show ?case by simp
next
  case (7 p x xs)
  show ?case
  proof (cases "is_space x")
    case True
    show ?thesis
    proof (cases "re_match (Spaces # p) xs")
      case None
      with True "7.prems" have "re_match p (x # xs) = Some r" by simp
      with "7.IH"(2) [OF True None] show ?thesis by blast
    next
      case (Some r')
      with True "7.prems" have "r' = r" by simp
      with Some "7.IH"(1) [OF True] obtain a where "xs = a @ r" by blast
      then have "x # xs = (x # a) @ r" by simp
      then show ?thesis by blast
    qed
  next
    case False
    with "7.prems" have "re_match p (x # xs) = Some r" by simp
    with "7.IH"(3) [OF False] show ?thesis by blast
  qed
qed

lemma set_re_sub: "set (re_sub p s) \<subseteq> set s"
proof (induction p s rule: re_sub.induct)
  case (1 p)
  then show ?case by simp
next
  case (2 p c cs)
  show ?case
  proof (cases "re_match p (c # cs)")
    case None
    with "2.IH"(1) show ?thesis by auto
  next
    case (Some rest)
    show ?thesis
    proof (cases "length rest < length (c # cs)")
      case True
      from Some obtain a where "c # cs = a @ rest" using re_match_suffix by blast
      then have "set rest \<subseteq> set (c # cs)" by (metis set_append Un_upper2)
      moreover have "set (re_sub p rest) \<subseteq> set rest" using "2.IH"(2) [OF Some True] .
      moreover have "re_sub p (c # cs) = re_sub p rest" using Some True by simp
      ultimately show ?thesis by (metis order_trans)
    next
      case False
      have "set (re_sub p cs) \<subseteq> set cs" using "2.IH"(3) [OF Some False] .
      moreover have "re_sub p (c # cs) = c # re_sub p cs" using Some False by simp
      ultimately show ?thesis by (metis set_subset_Cons order_trans insert_subset list.simps(15) list.set_intros(1))
    qed
  qed
qed

lemma blank_cleaned: "\<forall>c\<in>set raw. is_space c \<Longrightarrow> cleaned_text raw = []"
proof -
  assume a: "\<forall>c\<in>set raw. is_space c"
  let ?z = "re_sub re_hms (re_sub re_hms_ms (re_sub re_srt raw))"
  have "set ?z \<subseteq> set (re_sub re_hms_ms (re_sub re_srt raw))" by (rule set_re_sub)
  also have "\<dots> \<subseteq> set (re_sub re_srt raw)" by (rule set_re_sub)
  also have "\<dots> \<subseteq> set raw" by (rule set_re_sub)
  finally have "set ?z \<subseteq> set raw" .
  with a have "\<forall>c\<in>set ?z. is_space c" by blast
  then have "py_split ?z = []" by (simp only: py_split_Nil_iff)
  then show ?thesis
    by (simp add: cleaned_text_def py_strip_chars_def strip_where_def)
qed

lemma length_strip_where: "length (strip_where P s) \<le> length s"
proof -
  obtain a b where "s = a @ strip_where P s @ b" using strip_where_infix by blast
  then have "length s = length a + length (strip_where P s) + length b"
    by (metis length_append add.assoc)
  then show ?thesis by simp
qed

lemma length_lower_char: "c \<noteq> CapIDot \<Longrightarrow> length (lower_char c) = 1"
  by (cases c) simp_all

text \<open>
  What holds of the rejections: a cleaned text that, in lower case and trimmed, is a
  noise word is rejected; an input of whitespace only is rejected; a cleaned text whose
  lower-case form is shorter than two characters is rejected, and that is every cleaned
  text shorter than two characters but one, the single character U+0130.
\<close>

lemma noise_rejected:
  "(py_strip (py_lower (cleaned_text raw)) \<in> set false_positives \<longrightarrow>
      clean_transcription raw = None) \<and>
   ((\<forall>c\<in>set raw. is_space c) \<longrightarrow> clean_transcription raw = None) \<and>
   (length (py_strip (py_lower (cleaned_text raw))) < 2 \<longrightarrow> clean_transcription raw = None) \<and>
   (length (cleaned_text raw) < 2 \<and> cleaned_text raw \<noteq> [CapIDot] \<longrightarrow>
      clean_transcription raw = None)"
proof (intro conjI impI)
  assume "py_strip (py_lower (cleaned_text raw)) \<in> set false_positives"
  then show "clean_transcription raw = None"
    by (simp add: clean_transcription_def Let_def)
next
  assume "\<forall>c\<in>set raw. is_space c"
  then have "cleaned_text raw = []" by (rule blank_cleaned)
  then show "clean_transcription raw = None"
    by (simp add: clean_transcription_def)
next
  assume "length (py_strip (py_lower (cleaned_text raw))) < 2"
  then show "clean_transcription raw = None"
    by (simp add: clean_transcription_def Let_def)
next
  assume a: "length (cleaned_text raw) < 2 \<and> cleaned_text raw \<noteq> [CapIDot]"
  show "clean_transcription raw = None"
  proof (cases "cleaned_text raw")
    case Nil
    then show ?thesis by (simp add: clean_transcription_def)
  next
    case (Cons c cs)
    with a have cs: "cs = []" and c: "c \<noteq> CapIDot" by auto
    have "length (py_strip (py_lower (cleaned_text raw))) \<le> length (py_lower (cleaned_text raw))"
      unfolding py_strip_def by (rule length_strip_where)
    also have "\<dots> = 1" using Cons cs c by (simp add: py_lower_def length_lower_char)
    finally have "length (py_strip (py_lower (cleaned_text raw))) < 2" by simp
    then show ?thesis
      by (simp add: clean_transcription_def Let_def)
  qed
qed

text \<open>
  C5 fails at one input. The code measures the length of the lower-case form of the
  cleaned text, and the lower-case form of U+0130 is two characters long: the cleaned
  text of that input is one character long, and the filter accepts it.
\<close>

theorem one_character_accepted:
  "cleaned_text [CapIDot] = [CapIDot] \<and> length (cleaned_text [CapIDot]) < 2 \<and>
   py_strip (py_lower (cleaned_text [CapIDot])) = [Latin CHR ''i'', CombDot] \<and>
   clean_transcription [CapIDot] = Some [CapIDot]"
  by (simp add: filter_eval)

end
